theory Spec2Isabelle
  imports Complex_Main
begin

section \<open>Data model\<close>

text \<open>
  The two modules \<^verbatim>\<open>dataStructures.py\<close> and \<^verbatim>\<open>ledgerParser.py\<close> are embedded
  as follows.

  \<^item> Python exceptions are values of \<open>error\<close>; a function that may raise returns
    \<open>error + 'a\<close> (\<open>Inl\<close> is the exception).
  \<^item> \<open>Entity\<close> objects are mutable and shared: the ledger's \<open>entities\<close> list is the
    store, and a reference to an entity is its position in that list. Two
    references are the same object exactly when the positions are equal.
  \<^item> A function that mutates entities takes the store and returns the new one
    next to its result, also when it raises.
  \<^item> Balances and amounts are Python floats. Their type is the type variable
    \<open>'f\<close>, of which only the operations \<open>+\<close>, \<open>-\<close> and the constant \<open>0\<close> (for \<open>0.0\<close>)
    are used and nothing is assumed: no law of arithmetic enters a proof, so
    every general theorem holds of float arithmetic with its rounding,
    infinities and NaN. The examples compute with real numbers, at values where
    float arithmetic is exact.
  \<^item> The library functions the code calls (\<open>datetime.strptime\<close>, \<open>strftime\<close>,
    \<open>float\<close>, and opening a file with \<open>csv.reader\<close>) are parameters, collected in
    the record \<open>pylib\<close>. \<open>None\<close> stands for the library call raising.
\<close>

datatype error =
    Exception string
  | ValueError
  | IndexError
  | AttributeError
  | TypeError
  | IOError

record 'f Entity =
  balance :: 'f
  name :: string
  type :: "string option"

record 'f Ledger =
  entities :: "'f Entity list option"
  ledgerFile :: "string option"

record ('d, 'f) pylib =
  strptime :: "string \<Rightarrow> string \<Rightarrow> 'd option"
  strftime :: "'d \<Rightarrow> string \<Rightarrow> string"
  float :: "string \<Rightarrow> 'f option"
  csv_reader :: "string \<Rightarrow> string list list option"

type_synonym 'f snapshot = "string \<times> (string \<times> 'f) list"

subsection \<open>Python built-ins used by the code\<close>

text \<open>\<open>str.lower\<close>, on ASCII letters; every other character is kept.\<close>

definition lower_char :: "char \<Rightarrow> char" where
  "lower_char c =
     (case map_of (zip ''ABCDEFGHIJKLMNOPQRSTUVWXYZ'' ''abcdefghijklmnopqrstuvwxyz'') c of
        Some d \<Rightarrow> d
      | None \<Rightarrow> c)"

definition lower :: "string \<Rightarrow> string" where
  "lower s = map lower_char s"

text \<open>\<open>list.index\<close>: the first position of the value, \<open>ValueError\<close> when absent.\<close>

fun index :: "string list \<Rightarrow> string \<Rightarrow> error + nat" where
  "index [] x = Inl ValueError"
| "index (h # hs) x =
     (if h = x then Inr 0
      else (case index hs x of Inl e \<Rightarrow> Inl e | Inr i \<Rightarrow> Inr (Suc i)))"

text \<open>\<open>row[i]\<close> for a non-negative \<open>i\<close>: \<open>IndexError\<close> out of range.\<close>

definition getitem :: "string list \<Rightarrow> nat \<Rightarrow> error + string" where
  "getitem row i = (if i < length row then Inr (row ! i) else Inl IndexError)"

text \<open>The expression \<open>row[headers.index(col)]\<close>.\<close>

definition field :: "string list \<Rightarrow> string list \<Rightarrow> string \<Rightarrow> error + string" where
  "field headers row col =
     (case index headers col of Inl e \<Rightarrow> Inl e | Inr i \<Rightarrow> getitem row i)"

section \<open>dataStructures.py\<close>

definition allowedToPay :: "string option list" where
  "allowedToPay = [Some ''person'', None]"

text \<open>
  \<open>Entity.pay\<close>. \<open>self\<close> is a reference into the store \<open>s\<close>; \<open>receiver\<close> is a
  reference or \<open>None\<close>. Reading \<open>receiver.balance\<close> of \<open>None\<close> raises
  \<open>AttributeError\<close>, before any assignment. The message of the other exception
  concatenates \<open>self.type\<close>, which raises \<open>TypeError\<close> when the type is \<open>None\<close>.
\<close>

definition pay ::
  "('f::{plus,minus}) Entity list \<Rightarrow> nat \<Rightarrow> nat option \<Rightarrow> 'f \<Rightarrow> (error + 'f) \<times> 'f Entity list" where
  "pay s self receiver amount =
     (if type (s ! self) \<in> set allowedToPay then
        (let uncommitedBalance = balance (s ! self);
             uncommitedBalance = uncommitedBalance - amount
         in case receiver of
              None \<Rightarrow> (Inl AttributeError, s)
            | Some r \<Rightarrow>
                (let s = s[r := (s ! r)\<lparr>balance := balance (s ! r) + amount\<rparr>];
                     s = s[self := (s ! self)\<lparr>balance := uncommitedBalance\<rparr>]
                 in (Inr amount, s)))
      else
        (case type (s ! self) of
           Some t \<Rightarrow>
             (Inl (Exception (''Transaction not allowed. Trying to sent currency from a ''
                               @ t @ '' entity.'')), s)
         | None \<Rightarrow> (Inl TypeError, s)))"

text \<open>
  \<open>Entity.parseEntities\<close>: the loop over the rows after the header of an entities
  file. The three constructor arguments are evaluated left to right.
\<close>

fun entityRows ::
  "('d, 'f) pylib \<Rightarrow> string list \<Rightarrow> string list list \<Rightarrow> error + 'f Entity list" where
  "entityRows lib headers [] = Inr []"
| "entityRows lib headers (row # rest) =
     (case field headers row ''name'' of Inl e \<Rightarrow> Inl e | Inr n \<Rightarrow>
     (case field headers row ''type'' of Inl e \<Rightarrow> Inl e | Inr t \<Rightarrow>
     (case field headers row ''startingBalance'' of Inl e \<Rightarrow> Inl e | Inr b \<Rightarrow>
     (case float lib b of None \<Rightarrow> Inl ValueError | Some bal \<Rightarrow>
     (case entityRows lib headers rest of Inl e \<Rightarrow> Inl e | Inr es \<Rightarrow>
        Inr (\<lparr>balance = bal, name = n, type = Some t\<rparr> # es))))))"

text \<open>The loop over the rows after the header of a transactions file.\<close>

fun transactionRows :: "string list \<Rightarrow> string list list \<Rightarrow> error + ('f::zero) Entity list" where
  "transactionRows headers [] = Inr []"
| "transactionRows headers (row # rest) =
     (case field headers row ''sender'' of Inl e \<Rightarrow> Inl e | Inr sn \<Rightarrow>
     (case field headers row ''receiver'' of Inl e \<Rightarrow> Inl e | Inr rn \<Rightarrow>
     (case transactionRows headers rest of Inl e \<Rightarrow> Inl e | Inr es \<Rightarrow>
        Inr (\<lparr>balance = 0, name = sn, type = None\<rparr>
             # \<lparr>balance = 0, name = rn, type = None\<rparr> # es))))"

definition parseEntities ::
  "('d, 'f::zero) pylib \<Rightarrow> string option \<Rightarrow> string option \<Rightarrow> error + 'f Entity list" where
  "parseEntities lib entitiesFile transactionsFile =
     (case entitiesFile of
        Some f \<Rightarrow>
          (case csv_reader lib f of
             None \<Rightarrow> Inl IOError
           | Some [] \<Rightarrow> Inr []
           | Some (headers # rows) \<Rightarrow> entityRows lib headers rows)
      | None \<Rightarrow>
          (case transactionsFile of
             Some f \<Rightarrow>
               (case csv_reader lib f of
                  None \<Rightarrow> Inl IOError
                | Some [] \<Rightarrow> Inr []
                | Some (headers # rows) \<Rightarrow> transactionRows headers rows)
           | None \<Rightarrow> Inr []))"

section \<open>ledgerParser.py\<close>

definition init :: "'f Ledger" where
  "init = \<lparr>entities = None, ledgerFile = None\<rparr>"

text \<open>
  The loop of \<open>getEntityByName\<close> over the entity list: the position of the first
  entity whose lowered name equals the lowered argument.
\<close>

fun firstByName :: "'f Entity list \<Rightarrow> string \<Rightarrow> nat option" where
  "firstByName [] nm = None"
| "firstByName (entity # rest) nm =
     (if lower (name entity) = lower nm then Some 0
      else map_option Suc (firstByName rest nm))"

text \<open>
  \<open>Ledger.getEntityByName\<close>: a reference to the entity, or \<open>None\<close>. Iterating
  over \<open>self.entities\<close> raises \<open>TypeError\<close> while it is still \<open>None\<close>.
\<close>

definition getEntityByName :: "'f Ledger \<Rightarrow> string \<Rightarrow> error + nat option" where
  "getEntityByName L nm =
     (case entities L of
        None \<Rightarrow> Inl TypeError
      | Some es \<Rightarrow> Inr (firstByName es nm))"

definition parseLedger ::
  "('d, 'f::zero) pylib \<Rightarrow> 'f Ledger \<Rightarrow> string \<Rightarrow> (error + unit) \<times> 'f Ledger" where
  "parseLedger lib L file =
     (let L = L\<lparr>ledgerFile := Some file\<rparr>
      in case parseEntities lib None (Some file) of
           Inl e \<Rightarrow> (Inl e, L)
         | Inr es \<Rightarrow> (Inr (), L\<lparr>entities := Some es\<rparr>))"

text \<open>
  The four right-hand sides that \<open>getBalanceAtDate\<close> evaluates for every row
  after the header, in the order of the source, before it compares the dates.
\<close>

definition readRow ::
  "('d, 'f) pylib \<Rightarrow> 'f Ledger \<Rightarrow> string list \<Rightarrow> string list
     \<Rightarrow> error + (nat option \<times> nat option \<times> 'd \<times> 'f)" where
  "readRow lib L headers row =
     (case field headers row ''sender'' of Inl e \<Rightarrow> Inl e | Inr sn \<Rightarrow>
     (case getEntityByName L sn of Inl e \<Rightarrow> Inl e | Inr sender \<Rightarrow>
     (case field headers row ''receiver'' of Inl e \<Rightarrow> Inl e | Inr rn \<Rightarrow>
     (case getEntityByName L rn of Inl e \<Rightarrow> Inl e | Inr receiver \<Rightarrow>
     (case field headers row ''date'' of Inl e \<Rightarrow> Inl e | Inr ds \<Rightarrow>
     (case strptime lib ds ''%Y-%m-%d'' of None \<Rightarrow> Inl ValueError | Some currentDate \<Rightarrow>
     (case field headers row ''amount'' of Inl e \<Rightarrow> Inl e | Inr a \<Rightarrow>
     (case float lib a of None \<Rightarrow> Inl ValueError | Some amount \<Rightarrow>
        Inr (sender, receiver, currentDate, amount)))))))))"

text \<open>The list comprehension that builds the balances of the result.\<close>

definition balances :: "'f Entity list \<Rightarrow> (string \<times> 'f) list" where
  "balances es = map (\<lambda>entity. (name entity, balance entity)) es"

text \<open>
  The body of the \<open>for\<close> loop of \<open>getBalanceAtDate\<close> for the rows after the header.
  The result \<open>Inr None\<close> is the loop ending without a \<open>return\<close>: the method then
  returns Python's \<open>None\<close>. Calling \<open>sender.pay\<close> on \<open>None\<close> raises \<open>AttributeError\<close>.
\<close>

fun replayRows ::
  "('d::linorder, 'f::{plus,minus}) pylib \<Rightarrow> 'd \<Rightarrow> string \<Rightarrow> string list \<Rightarrow> string list list
     \<Rightarrow> 'f Ledger \<Rightarrow> (error + 'f snapshot option) \<times> 'f Ledger" where
  "replayRows lib date fmt headers [] L = (Inr None, L)"
| "replayRows lib date fmt headers (row # rest) L =
     (case readRow lib L headers row of
        Inl e \<Rightarrow> (Inl e, L)
      | Inr (sender, receiver, currentDate, amount) \<Rightarrow>
          if currentDate \<le> date then
            (case sender of
               None \<Rightarrow> (Inl AttributeError, L)
             | Some s \<Rightarrow>
                 (case entities L of
                    None \<Rightarrow> (Inl TypeError, L)
                  | Some es \<Rightarrow>
                      (case pay es s receiver amount of
                         (Inl e, es') \<Rightarrow> (Inl e, L\<lparr>entities := Some es'\<rparr>)
                       | (Inr paid, es') \<Rightarrow>
                           replayRows lib date fmt headers rest (L\<lparr>entities := Some es'\<rparr>))))
          else
            (case entities L of
               None \<Rightarrow> (Inl TypeError, L)
             | Some es \<Rightarrow> (Inr (Some (strftime lib date fmt, balances es)), L)))"

definition getBalanceAtDate ::
  "('d::linorder, 'f::{plus,minus}) pylib \<Rightarrow> 'f Ledger \<Rightarrow> string option \<Rightarrow> string
     \<Rightarrow> (error + 'f snapshot option) \<times> 'f Ledger" where
  "getBalanceAtDate lib L date fmt =
     (case date of
        None \<Rightarrow> (Inl (Exception ''No date was provided.''), L)
      | Some ds \<Rightarrow>
          (case strptime lib ds fmt of
             None \<Rightarrow> (Inl ValueError, L)
           | Some d \<Rightarrow>
               (case ledgerFile L of
                  None \<Rightarrow> (Inl TypeError, L)
                | Some file \<Rightarrow>
                    (case csv_reader lib file of
                       None \<Rightarrow> (Inl IOError, L)
                     | Some [] \<Rightarrow> (Inr None, L)
                     | Some (headers # rows) \<Rightarrow>
                         if ''sender'' \<notin> set headers \<or> ''receiver'' \<notin> set headers
                            \<or> ''date'' \<notin> set headers \<or> ''amount'' \<notin> set headers
                         then (Inl (Exception ''sender, receiver, date and amount must be contained as headers in the ledger CSV.''), L)
                         else replayRows lib d fmt headers rows L))))"

section \<open>Notions used to state the properties\<close>

text \<open>
  The transaction record that a row after the header denotes: the four fields
  that \<open>getBalanceAtDate\<close> reads from it, with the date and the amount parsed
  the way the source parses them. \<open>None\<close> when reading the row raises.
\<close>

definition parsedRow ::
  "('d, 'f) pylib \<Rightarrow> string list \<Rightarrow> string list \<Rightarrow> ('d \<times> string \<times> string \<times> 'f) option" where
  "parsedRow lib headers row =
     (case field headers row ''sender'' of Inl e \<Rightarrow> None | Inr sn \<Rightarrow>
     (case field headers row ''receiver'' of Inl e \<Rightarrow> None | Inr rn \<Rightarrow>
     (case field headers row ''date'' of Inl e \<Rightarrow> None | Inr ds \<Rightarrow>
     (case strptime lib ds ''%Y-%m-%d'' of None \<Rightarrow> None | Some d \<Rightarrow>
     (case field headers row ''amount'' of Inl e \<Rightarrow> None | Inr a \<Rightarrow>
     (case float lib a of None \<Rightarrow> None | Some x \<Rightarrow> Some (d, sn, rn, x)))))))"

text \<open>
  An entity is a later duplicate when an entity earlier in the list has the same
  name up to case.
\<close>

definition laterDuplicate :: "'f Entity list \<Rightarrow> nat \<Rightarrow> bool" where
  "laterDuplicate es j = (\<exists>i \<in> {..<j}. lower (name (es ! i)) = lower (name (es ! j)))"

text \<open>
  The replay as the specification words it (section 4.3), over transaction
  records: in stream order, a record dated on or before the cutoff has its
  sender and receiver looked up and the transfer applied; the first record dated
  after the cutoff stops the replay with a snapshot; a failed lookup or transfer
  fails the replay; an exhausted stream gives a snapshot. The transfer is \<open>pay\<close>
  and the lookup is \<open>firstByName\<close>. It is compared with \<open>replayRows\<close> below.
\<close>

datatype 'f replayState = Snapshot "'f snapshot" | Failed

fun replaySpec ::
  "('d::linorder) \<Rightarrow> string \<Rightarrow> ('d \<times> string \<times> string \<times> 'f) list
     \<Rightarrow> ('f::{plus,minus}) Entity list \<Rightarrow> 'f replayState \<times> 'f Entity list" where
  "replaySpec cutoff key [] es = (Snapshot (key, balances es), es)"
| "replaySpec cutoff key ((recordDate, senderName, receiverName, amount) # rest) es =
     (if recordDate \<le> cutoff then
        (case firstByName es senderName of
           None \<Rightarrow> (Failed, es)
         | Some sender \<Rightarrow>
             (case firstByName es receiverName of
                None \<Rightarrow> (Failed, es)
              | Some receiver \<Rightarrow>
                  (case pay es sender (Some receiver) amount of
                     (Inl e, es') \<Rightarrow> (Failed, es')
                   | (Inr paid, es') \<Rightarrow> replaySpec cutoff key rest es')))
      else (Snapshot (key, balances es), es))"

text \<open>
  A result of the source agrees with a state of the specification's machine when
  a snapshot is returned as that snapshot and a failure is an exception.
\<close>

definition agrees :: "error + 'f snapshot option \<Rightarrow> 'f replayState \<Rightarrow> bool" where
  "agrees res st = (case st of Snapshot snap \<Rightarrow> res = Inr (Some snap) | Failed \<Rightarrow> isl res)"

section \<open>Example data\<close>

text \<open>
  The registry of the specification's scenario: Alice, a person holding 100, and
  Bob, a company holding 50, with its two transactions in a file. Dates are day
  numbers; the library parses the three dates and the two amounts that occur,
  and reads the three files defined here.
\<close>

definition alice :: "real Entity" where
  "alice = \<lparr>balance = 100, name = ''Alice'', type = Some ''person''\<rparr>"

definition bob :: "real Entity" where
  "bob = \<lparr>balance = 50, name = ''Bob'', type = Some ''company''\<rparr>"

definition exampleRows :: "string list list" where
  "exampleRows =
     [[''date'', ''sender'', ''receiver'', ''amount''],
      [''2021-01-01'', ''Alice'', ''Bob'', ''30.00''],
      [''2021-01-02'', ''Bob'', ''Alice'', ''10.00'']]"

text \<open>
  Two more files: a stream that is not sorted by date, and a stream whose second
  record names a sender that is in no registry.
\<close>

definition unsortedRows :: "string list list" where
  "unsortedRows =
     [[''date'', ''sender'', ''receiver'', ''amount''],
      [''2021-01-01'', ''Alice'', ''Bob'', ''30.00''],
      [''2021-01-02'', ''Bob'', ''Alice'', ''10.00''],
      [''2021-01-01'', ''Alice'', ''Bob'', ''10.00'']]"

definition unregisteredRows :: "string list list" where
  "unregisteredRows =
     [[''date'', ''sender'', ''receiver'', ''amount''],
      [''2021-01-01'', ''Alice'', ''Bob'', ''30.00''],
      [''2021-01-02'', ''Carol'', ''Bob'', ''10.00'']]"

definition exampleLib :: "(nat, real) pylib" where
  "exampleLib =
     \<lparr>strptime = (\<lambda>s fmt. if fmt = ''%Y-%m-%d''
                          then map_of [(''2021-01-01'', 1), (''2021-01-02'', 2), (''2021-01-03'', 3)] s
                          else None),
      strftime = (\<lambda>d fmt. if d = 1 then ''2021-01-01''
                          else if d = 2 then ''2021-01-02'' else ''2021-01-03''),
      float = map_of [(''30.00'', 30), (''10.00'', 10)],
      csv_reader = map_of [(''transactions.csv'', exampleRows),
                           (''unsorted.csv'', unsortedRows),
                           (''unregistered.csv'', unregisteredRows)]\<rparr>"

text \<open>
  \<open>exampleLedger\<close> holds the registry above; \<open>streamLedger\<close> is the ledger that
  \<open>parseLedger\<close> builds from the file alone.
\<close>

definition exampleLedger :: "real Ledger" where
  "exampleLedger = \<lparr>entities = Some [alice, bob], ledgerFile = Some ''transactions.csv''\<rparr>"

definition streamEntities :: "real Entity list" where
  "streamEntities =
     [\<lparr>balance = 0, name = ''Alice'', type = None\<rparr>,
      \<lparr>balance = 0, name = ''Bob'', type = None\<rparr>,
      \<lparr>balance = 0, name = ''Bob'', type = None\<rparr>,
      \<lparr>balance = 0, name = ''Alice'', type = None\<rparr>]"

definition streamLedger :: "real Ledger" where
  "streamLedger = \<lparr>entities = Some streamEntities, ledgerFile = Some ''transactions.csv''\<rparr>"

lemmas example_simps =
  exampleLib_def exampleRows_def unsortedRows_def unregisteredRows_def streamLedger_def streamEntities_def exampleLedger_def init_def
  parseLedger_def parseEntities_def field_def getitem_def
  getBalanceAtDate_def readRow_def getEntityByName_def pay_def allowedToPay_def balances_def
  lower_def lower_char_def alice_def bob_def Let_def

lemma parseLedger_example:
  "parseLedger exampleLib init ''transactions.csv'' = (Inr (), streamLedger)"
  by (simp add: example_simps)

section \<open>Payments\<close>

text \<open>
  Between two different entities a transfer by an allowed sender credits the
  receiver and debits the sender.
\<close>

lemma pay_distinct:
  assumes "self \<noteq> r" and "type (s ! self) \<in> set allowedToPay"
  shows "pay s self (Some r) amount =
     (Inr amount, s[r := (s ! r)\<lparr>balance := balance (s ! r) + amount\<rparr>,
                    self := (s ! self)\<lparr>balance := balance (s ! self) - amount\<rparr>])"
  using assms by (simp add: pay_def Let_def)

text \<open>
  Claim C2 says that after every successful transfer the receiver holds its
  balance before plus the amount and that the sum of all balances is as before.
  In the code the sender's new balance is computed from its balance before the
  credit and assigned after it. When sender and receiver are the same object (a
  row whose two names resolve to one entity), that assignment overwrites the
  credit: every successful transfer of an entity to itself returns the amount
  and leaves the entity with its balance minus the amount, every other entity
  untouched.
\<close>

theorem pay_self_transfer:
  assumes "self < length s" and "type (s ! self) \<in> set allowedToPay"
  shows "pay s self (Some self) amount =
           (Inr amount, s[self := (s ! self)\<lparr>balance := balance (s ! self) - amount\<rparr>])
       \<and> balance (snd (pay s self (Some self) amount) ! self) = balance (s ! self) - amount"
  using assms by (simp add: pay_def Let_def)

theorem pay_self_transfer_witness:
  "(0::nat) < length [alice, bob] \<and> type ([alice, bob] ! 0) \<in> set allowedToPay
   \<and> balance ([alice, bob] ! 0) = 100
   \<and> pay [alice, bob] 0 (Some 0) 10 = (Inr 10, [alice\<lparr>balance := 90\<rparr>, bob])
   \<and> balance (snd (pay [alice, bob] 0 (Some 0) 10) ! 0) \<noteq> balance ([alice, bob] ! 0) + 10"
proof -
  have len: "(0::nat) < length [alice, bob]"
    by simp
  have ok: "type ([alice, bob] ! 0) \<in> set allowedToPay"
    by (simp add: allowedToPay_def alice_def)
  from pay_self_transfer [OF len ok, of 10] len ok show ?thesis
    by (simp add: alice_def)
qed

text \<open>
  Claim C4: a transfer by a sender whose type is not in \<open>allowedToPay\<close> (the
  default list: the string person, and \<open>None\<close>) raises the exception whose
  message names that type, whatever the amount and the receiver (present or
  absent), and the store, hence every balance, is left as it was.
\<close>

theorem pay_not_allowed:
  assumes "type (s ! self) \<notin> set allowedToPay"
  shows "\<exists>t. type (s ! self) = Some t
           \<and> pay s self receiver amount =
               (Inl (Exception (''Transaction not allowed. Trying to sent currency from a ''
                                 @ t @ '' entity.'')), s)"
  using assms by (cases "type (s ! self)") (simp_all add: pay_def allowedToPay_def)

theorem pay_not_allowed_witness:
  "type ([alice, bob] ! 1) \<notin> set allowedToPay
   \<and> pay [alice, bob] 1 (Some 0) 10 =
       (Inl (Exception ''Transaction not allowed. Trying to sent currency from a company entity.''),
        [alice, bob])"
proof -
  have h: "type ([alice, bob] ! 1) \<notin> set allowedToPay"
    by (simp add: allowedToPay_def bob_def)
  from pay_not_allowed [OF h, of "Some 0" 10] h show ?thesis
    by (simp add: bob_def)
qed

text \<open>
  Claim C5, as stated, says that a transfer with an absent receiver always fails
  with the invalid-receiver error. The type of the sender is tested first: for a
  sender that is not allowed to pay, the failure is the not-allowed exception
  and not the \<open>AttributeError\<close> that the absent receiver causes.
\<close>

theorem pay_receiver_None_counterexample:
  "pay [alice, bob] 1 None 10 \<noteq> (Inl AttributeError, [alice, bob])
   \<and> pay [alice, bob] 1 None 10 =
       (Inl (Exception ''Transaction not allowed. Trying to sent currency from a company entity.''),
        [alice, bob])"
  by (simp add: pay_def allowedToPay_def bob_def)

text \<open>
  Claim C5, amended: for every sender and every amount, a transfer whose receiver
  is absent fails and leaves the store, hence every balance and in particular
  the sender's, unchanged. The failure is the \<open>AttributeError\<close> of the absent
  receiver when the sender's type is in \<open>allowedToPay\<close>, and the not-allowed
  exception naming the sender's type otherwise.
\<close>

theorem pay_receiver_None:
  "\<exists>e. pay s self None amount = (Inl e, s)
        \<and> (type (s ! self) \<in> set allowedToPay \<longrightarrow> e = AttributeError)
        \<and> (type (s ! self) \<notin> set allowedToPay \<longrightarrow>
             (\<exists>t. type (s ! self) = Some t
                \<and> e = Exception (''Transaction not allowed. Trying to sent currency from a ''
                                   @ t @ '' entity.'')))"
  by (cases "type (s ! self)") (simp_all add: pay_def allowedToPay_def)

theorem pay_receiver_None_witness:
  "type ([alice, bob] ! 0) \<in> set allowedToPay
   \<and> pay [alice, bob] 0 None 10 = (Inl AttributeError, [alice, bob])
   \<and> type ([alice, bob] ! 1) \<notin> set allowedToPay
   \<and> pay [alice, bob] 1 None 10 =
       (Inl (Exception ''Transaction not allowed. Trying to sent currency from a company entity.''),
        [alice, bob])"
proof -
  have yes: "type ([alice, bob] ! 0) \<in> set allowedToPay"
    by (simp add: allowedToPay_def alice_def)
  have no: "type ([alice, bob] ! 1) \<notin> set allowedToPay" and t: "type ([alice, bob] ! 1) = Some ''company''"
    by (simp_all add: allowedToPay_def bob_def)
  from pay_receiver_None [of "[alice, bob]" 0 10] yes
  have "pay [alice, bob] 0 None 10 = (Inl AttributeError, [alice, bob])"
    by auto
  moreover from pay_receiver_None [of "[alice, bob]" 1 10] no t
  have "pay [alice, bob] 1 None 10 =
       (Inl (Exception ''Transaction not allowed. Trying to sent currency from a company entity.''),
        [alice, bob])"
    by auto
  ultimately show ?thesis
    using yes no by (intro conjI)
qed

section \<open>Lookup by name\<close>

lemma firstByName_Some:
  "firstByName es nm = Some i \<Longrightarrow>
     i < length es \<and> lower (name (es ! i)) = lower nm
     \<and> (\<forall>k<i. lower (name (es ! k)) \<noteq> lower nm)"
proof (induction es arbitrary: i)
  case Nil
  then show ?case by simp
next
  case (Cons e es)
  show ?case
  proof (cases "lower (name e) = lower nm")
    case True
    with Cons.prems show ?thesis by simp
  next
    case False
    with Cons.prems obtain j where j: "firstByName es nm = Some j" and i: "i = Suc j"
      by auto
    from Cons.IH [OF j] False show ?thesis
      by (auto simp: i less_Suc_eq_0_disj)
  qed
qed

lemma firstByName_None:
  "(firstByName es nm = None) = (\<forall>e \<in> set es. lower (name e) \<noteq> lower nm)"
  by (induction es) auto

lemma firstByName_lower:
  "lower n1 = lower n2 \<Longrightarrow> firstByName es n1 = firstByName es n2"
  by (induction es) auto

lemma firstByName_member:
  assumes "j < length es"
  shows "\<exists>i\<le>j. firstByName es (name (es ! j)) = Some i"
proof -
  from assms have "es ! j \<in> set es"
    by simp
  then have "firstByName es (name (es ! j)) \<noteq> None"
    unfolding firstByName_None by blast
  then obtain i where i: "firstByName es (name (es ! j)) = Some i"
    by auto
  from firstByName_Some [OF i] have "\<not> j < i"
    by blast
  with i show ?thesis
    by (intro exI [of _ i]) simp
qed

lemma firstByName_not_later:
  "firstByName es nm = Some i \<Longrightarrow> i < length es \<and> \<not> laterDuplicate es i"
  using firstByName_Some [of es nm i] by (auto simp: laterDuplicate_def)

text \<open>
  Claim C8: lookup is case-insensitive. In a ledger that contains an entity,
  looking up any two names that equal the entity's name up to case (ALICE and
  alice for Alice) returns the same reference, to an entity whose name equals
  the entity's name up to case.
\<close>

theorem lookup_case_insensitive:
  assumes "entities L = Some es" and "e \<in> set es"
    and "lower n1 = lower (name e)" and "lower n2 = lower (name e)"
  shows "\<exists>i. getEntityByName L n1 = Inr (Some i) \<and> getEntityByName L n2 = Inr (Some i)
           \<and> i < length es \<and> lower (name (es ! i)) = lower (name e)"
proof -
  from assms(2,3) have "firstByName es n1 \<noteq> None"
    by (auto simp: firstByName_None)
  then obtain i where i: "firstByName es n1 = Some i"
    by auto
  moreover have "firstByName es n2 = firstByName es n1"
    by (rule firstByName_lower) (simp add: assms(3,4))
  ultimately show ?thesis
    using firstByName_Some [OF i] assms(1,3) by (simp add: getEntityByName_def)
qed

theorem lookup_case_insensitive_witness:
  "getEntityByName \<lparr>entities = Some [bob, alice], ledgerFile = None\<rparr> ''ALICE'' = Inr (Some 1)
   \<and> getEntityByName \<lparr>entities = Some [bob, alice], ledgerFile = None\<rparr> ''alice'' = Inr (Some 1)"
proof -
  have "entities \<lparr>entities = Some [bob, alice], ledgerFile = None\<rparr> = Some [bob, alice]"
    and "alice \<in> set [bob, alice]"
    and "lower ''ALICE'' = lower (name alice)" and "lower ''alice'' = lower (name alice)"
    by (simp_all add: lower_def lower_char_def alice_def)
  from lookup_case_insensitive [OF this] show ?thesis
    by (auto simp: getEntityByName_def lower_def lower_char_def alice_def bob_def)
qed

section \<open>Replay\<close>

lemma map_name_balance_update:
  "map name (s[i := (s ! i)\<lparr>balance := b\<rparr>]) = map name s"
  by (induction s arbitrary: i) (auto split: nat.splits)

lemma map_type_balance_update:
  "map type (s[i := (s ! i)\<lparr>balance := b\<rparr>]) = map type s"
  by (induction s arbitrary: i) (auto split: nat.splits)

lemma pay_cases:
  "pay s self receiver amount = (res, s') \<Longrightarrow>
     s' = s \<and> isl res
     \<or> (\<exists>r. receiver = Some r \<and> res = Inr amount
            \<and> s' = (s[r := (s ! r)\<lparr>balance := balance (s ! r) + amount\<rparr>])
                     [self := ((s[r := (s ! r)\<lparr>balance := balance (s ! r) + amount\<rparr>]) ! self)
                                \<lparr>balance := balance (s ! self) - amount\<rparr>])"
  by (auto simp: pay_def Let_def split: if_splits option.splits)

lemma pay_frame:
  assumes "pay s self receiver amount = (res, s')"
  shows "length s' = length s \<and> map name s' = map name s \<and> map type s' = map type s
       \<and> (\<forall>j. j \<noteq> self \<longrightarrow> receiver \<noteq> Some j \<longrightarrow> s' ! j = s ! j)"
proof -
  from pay_cases [OF assms] show ?thesis
  proof (elim disjE exE conjE)
    assume "s' = s"
    then show ?thesis by simp
  next
    fix r
    assume r: "receiver = Some r"
      and s': "s' = (s[r := (s ! r)\<lparr>balance := balance (s ! r) + amount\<rparr>])
                     [self := ((s[r := (s ! r)\<lparr>balance := balance (s ! r) + amount\<rparr>]) ! self)
                                \<lparr>balance := balance (s ! self) - amount\<rparr>]"
    have "length s' = length s"
      by (simp add: s')
    moreover have "map name s' = map name s"
      unfolding s' by (simp only: map_name_balance_update)
    moreover have "map type s' = map type s"
      unfolding s' by (simp only: map_type_balance_update)
    moreover have "\<forall>j. j \<noteq> self \<longrightarrow> receiver \<noteq> Some j \<longrightarrow> s' ! j = s ! j"
      by (simp add: s' r)
    ultimately show ?thesis by blast
  qed
qed

lemma pay_absent_receiver: "\<exists>e. pay s self None amount = (Inl e, s)"
  by (simp add: pay_def Let_def split: option.splits)

lemma laterDuplicate_names:
  assumes "map name es' = map name es" and "j < length es"
  shows "laterDuplicate es' j = laterDuplicate es j"
proof -
  have len: "length es' = length es"
    using assms(1) by (rule map_eq_imp_length_eq)
  have nm: "name (es' ! i) = name (es ! i)" if "i < length es" for i
  proof -
    have "map name es' ! i = map name es ! i"
      by (simp add: assms(1))
    then show ?thesis
      using that len by simp
  qed
  show ?thesis
    using assms(2) by (auto simp: laterDuplicate_def nm)
qed

lemma Ledger_update_same: "entities L = Some es \<Longrightarrow> L\<lparr>entities := Some es\<rparr> = L"
  by (cases L) simp

lemma readRow_Inr:
  assumes "readRow lib L headers row = Inr (sender, receiver, currentDate, amount)"
    and "entities L = Some es"
  shows "\<exists>sn rn. sender = firstByName es sn \<and> receiver = firstByName es rn"
  using assms
  by (auto simp: readRow_def getEntityByName_def split: sum.splits option.splits)

lemma readRow_parsed:
  assumes "entities L = Some es" and "parsedRow lib hs row = Some (d, sn, rn, x)"
  shows "readRow lib L hs row = Inr (firstByName es sn, firstByName es rn, d, x)"
  using assms
  by (auto simp: parsedRow_def readRow_def getEntityByName_def split: sum.splits option.splits)

lemma replayRows_step:
  assumes "entities L = Some es" and "parsedRow lib hs row = Some (d, sn, rn, x)"
  shows "replayRows lib cutoff fmt hs (row # rest) L =
     (if d \<le> cutoff then
        (case firstByName es sn of
           None \<Rightarrow> (Inl AttributeError, L)
         | Some s \<Rightarrow>
             (case pay es s (firstByName es rn) x of
                (Inl e, es') \<Rightarrow> (Inl e, L\<lparr>entities := Some es'\<rparr>)
              | (Inr paid, es') \<Rightarrow>
                  replayRows lib cutoff fmt hs rest (L\<lparr>entities := Some es'\<rparr>)))
      else (Inr (Some (strftime lib cutoff fmt, balances es)), L))"
  by (simp add: readRow_parsed [OF assms] assms(1) split: option.splits)

lemma replayRows_frame:
  assumes "entities L = Some es"
    and "replayRows lib d fmt hs rows L = (res, L')"
  shows "\<exists>es'. L' = L\<lparr>entities := Some es'\<rparr> \<and> length es' = length es
            \<and> map name es' = map name es \<and> map type es' = map type es
            \<and> (\<forall>j<length es. laterDuplicate es j \<longrightarrow> es' ! j = es ! j)
            \<and> (\<forall>snap. res = Inr (Some snap) \<longrightarrow> snap = (strftime lib d fmt, balances es'))"
  using assms
proof (induction rows arbitrary: es L)
  case Nil
  then show ?case
    by (intro exI [of _ es]) (auto simp: Ledger_update_same)
next
  case (Cons row rows)
  note ents = Cons.prems(1) and run = Cons.prems(2)
  have stay: "\<exists>es'. L' = L\<lparr>entities := Some es'\<rparr> \<and> length es' = length es
            \<and> map name es' = map name es \<and> map type es' = map type es
            \<and> (\<forall>j<length es. laterDuplicate es j \<longrightarrow> es' ! j = es ! j)
            \<and> (\<forall>snap. res = Inr (Some snap) \<longrightarrow> snap = (strftime lib d fmt, balances es'))"
    if "L' = L" and "isl res \<or> res = Inr (Some (strftime lib d fmt, balances es))"
    using that ents by (intro exI [of _ es]) (auto simp: Ledger_update_same)
  show ?case
  proof (cases "readRow lib L hs row")
    case (Inl e)
    with run have "L' = L" "res = Inl e"
      by auto
    then show ?thesis
      by (intro stay) simp_all
  next
    case (Inr t)
    obtain sender receiver currentDate amount
      where t: "t = (sender, receiver, currentDate, amount)"
      by (cases t) auto
    from readRow_Inr [OF Inr [unfolded t] ents] obtain sn rn
      where sender: "sender = firstByName es sn" and receiver: "receiver = firstByName es rn"
      by auto
    show ?thesis
    proof (cases "currentDate \<le> d")
      case False
      with run Inr t ents have "L' = L" "res = Inr (Some (strftime lib d fmt, balances es))"
        by auto
      then show ?thesis
        by (intro stay) simp_all
    next
      case True
      show ?thesis
      proof (cases sender)
        case None
        with run Inr t ents True have "L' = L" "res = Inl AttributeError"
          by auto
        then show ?thesis
          by (intro stay) simp_all
      next
        case (Some s)
        obtain r1 es1 where p: "pay es s receiver amount = (r1, es1)"
          by (cases "pay es s receiver amount") auto
        note fr = pay_frame [OF p]
        from Some sender have s: "s < length es" "\<not> laterDuplicate es s"
          using firstByName_not_later [of es sn s] by auto
        have rcv: "\<not> laterDuplicate es j" if "receiver = Some j" for j
          using that receiver firstByName_not_later [of es rn j] by auto
        have keep1: "es1 ! j = es ! j" if "laterDuplicate es j" for j
        proof -
          from that s(2) have "j \<noteq> s"
            by auto
          moreover from that rcv have "receiver \<noteq> Some j"
            by auto
          ultimately show ?thesis
            using fr by simp
        qed
        show ?thesis
        proof (cases r1)
          case (Inl e)
          with run Inr t ents True Some p have "res = Inl e" "L' = L\<lparr>entities := Some es1\<rparr>"
            by auto
          with fr keep1 show ?thesis
            by auto
        next
          case (Inr paid)
          let ?L1 = "L\<lparr>entities := Some es1\<rparr>"
          from run \<open>readRow lib L hs row = Inr t\<close> t ents True Some p Inr
          have rec: "replayRows lib d fmt hs rows ?L1 = (res, L')"
            by auto
          have "entities ?L1 = Some es1"
            by simp
          from Cons.IH [OF this rec] obtain es' where
            L': "L' = ?L1\<lparr>entities := Some es'\<rparr>" and len: "length es' = length es1"
            and nms: "map name es' = map name es1" and tys: "map type es' = map type es1"
            and keep: "\<forall>j<length es1. laterDuplicate es1 j \<longrightarrow> es' ! j = es1 ! j"
            and snap: "\<forall>snap. res = Inr (Some snap) \<longrightarrow> snap = (strftime lib d fmt, balances es')"
            by blast
          have "es' ! j = es ! j" if "j < length es" "laterDuplicate es j" for j
          proof -
            from fr have "map name es1 = map name es" and len1: "length es1 = length es"
              by simp_all
            from laterDuplicate_names [OF this(1) that(1)] that(2) have "laterDuplicate es1 j"
              by simp
            with keep that(1) len1 have "es' ! j = es1 ! j"
              by simp
            with keep1 [OF that(2)] show ?thesis
              by simp
          qed
          moreover from fr len nms tys
          have "length es' = length es" "map name es' = map name es" "map type es' = map type es"
            by simp_all
          moreover have "L' = L\<lparr>entities := Some es'\<rparr>"
            by (simp add: L')
          ultimately show ?thesis
            using snap by blast
        qed
      qed
    qed
  qed
qed

lemma replayRows_exhausted:
  assumes "entities L = Some es"
    and "map (parsedRow lib hs) rows = map Some recs"
    and "\<forall>rec \<in> set recs. fst rec \<le> cutoff"
  shows "fst (replayRows lib cutoff fmt hs rows L) = Inr None
       \<or> isl (fst (replayRows lib cutoff fmt hs rows L))"
  using assms
proof (induction rows arbitrary: recs es L)
  case Nil
  then show ?case by simp
next
  case (Cons row rows)
  note ents = Cons.prems(1)
  from Cons.prems(2) obtain rec recs' where recs: "recs = rec # recs'"
    and row: "parsedRow lib hs row = Some rec"
    and rows: "map (parsedRow lib hs) rows = map Some recs'"
    by (cases recs) auto
  obtain d sn rn x where rec: "rec = (d, sn, rn, x)"
    by (cases rec) auto
  from Cons.prems(3) recs rec have le: "d \<le> cutoff" and early: "\<forall>rec \<in> set recs'. fst rec \<le> cutoff"
    by auto
  note step = replayRows_step [OF ents row [unfolded rec], of cutoff fmt rows]
  show ?case
  proof (cases "firstByName es sn")
    case None
    with le show ?thesis
      by (simp add: step del: replayRows.simps(2))
  next
    case (Some s)
    obtain r1 es1 where p: "pay es s (firstByName es rn) x = (r1, es1)"
      by (cases "pay es s (firstByName es rn) x") auto
    show ?thesis
    proof (cases r1)
      case (Inl e)
      with Some le p show ?thesis
        by (simp add: step del: replayRows.simps(2))
    next
      case (Inr paid)
      have "entities (L\<lparr>entities := Some es1\<rparr>) = Some es1"
        by simp
      from Cons.IH [OF this rows early] Some le p Inr show ?thesis
        by (simp add: step del: replayRows.simps(2))
    qed
  qed
qed

lemma agrees_simps:
  "agrees (Inl e) Failed" "agrees (Inr (Some snap)) (Snapshot snap)"
  by (simp_all add: agrees_def)

text \<open>
  Claim C1 says that a replay whose records are all dated on or before the cutoff
  ends with a snapshot of the state after the last record. In the code the loop
  then ends without reaching its \<open>return\<close>: for every ledger file whose records
  all parse and are all dated on or before the cutoff, \<open>getBalanceAtDate\<close> returns
  Python's \<open>None\<close> or raises, and never returns a snapshot.
\<close>

theorem getBalanceAtDate_exhausted:
  assumes "entities L = Some es"
    and "ledgerFile L = Some f"
    and "csv_reader lib f = Some (headers # rows)"
    and "strptime lib date fmt = Some cutoff"
    and "map (parsedRow lib headers) rows = map Some recs"
    and "\<forall>rec \<in> set recs. fst rec \<le> cutoff"
  shows "fst (getBalanceAtDate lib L (Some date) fmt) = Inr None
       \<or> isl (fst (getBalanceAtDate lib L (Some date) fmt))"
proof (cases "''sender'' \<notin> set headers \<or> ''receiver'' \<notin> set headers
              \<or> ''date'' \<notin> set headers \<or> ''amount'' \<notin> set headers")
  case True
  with assms(2,3,4) show ?thesis
    by (simp add: getBalanceAtDate_def)
next
  case False
  with assms(2,3,4) have "getBalanceAtDate lib L (Some date) fmt
      = replayRows lib cutoff fmt headers rows L"
    by (simp add: getBalanceAtDate_def)
  with replayRows_exhausted [OF assms(1,5,6), of fmt] show ?thesis
    by simp
qed

theorem getBalanceAtDate_exhausted_witness:
  "parseLedger exampleLib init ''transactions.csv'' = (Inr (), streamLedger)
   \<and> map (parsedRow exampleLib (hd exampleRows)) (tl exampleRows)
     = map Some [(1, ''Alice'', ''Bob'', 30), (2, ''Bob'', ''Alice'', 10)]
   \<and> strptime exampleLib ''2021-01-02'' ''%Y-%m-%d'' = Some 2
   \<and> getBalanceAtDate exampleLib streamLedger (Some ''2021-01-02'') ''%Y-%m-%d''
       = (Inr None,
          \<lparr>entities = Some [\<lparr>balance = -20, name = ''Alice'', type = None\<rparr>,
                            \<lparr>balance = 20, name = ''Bob'', type = None\<rparr>,
                            \<lparr>balance = 0, name = ''Bob'', type = None\<rparr>,
                            \<lparr>balance = 0, name = ''Alice'', type = None\<rparr>],
           ledgerFile = Some ''transactions.csv''\<rparr>)"
proof -
  have ents: "entities streamLedger = Some streamEntities"
    by (simp add: streamLedger_def)
  have lf: "ledgerFile streamLedger = Some ''transactions.csv''"
    by (simp add: streamLedger_def)
  have csv: "csv_reader exampleLib ''transactions.csv'' = Some (hd exampleRows # tl exampleRows)"
    by (simp add: exampleLib_def exampleRows_def)
  have cutoff: "strptime exampleLib ''2021-01-02'' ''%Y-%m-%d'' = Some 2"
    by (simp add: exampleLib_def)
  have recs: "map (parsedRow exampleLib (hd exampleRows)) (tl exampleRows)
                = map Some [(1, ''Alice'', ''Bob'', 30), (2, ''Bob'', ''Alice'', 10)]"
    by (simp add: parsedRow_def example_simps)
  have early: "\<forall>rec \<in> set [(1::nat, ''Alice'', ''Bob'', 30::real), (2, ''Bob'', ''Alice'', 10)]. fst rec \<le> 2"
    by simp
  have run: "getBalanceAtDate exampleLib streamLedger (Some ''2021-01-02'') ''%Y-%m-%d''
       = (Inr None,
          \<lparr>entities = Some [\<lparr>balance = -20, name = ''Alice'', type = None\<rparr>,
                            \<lparr>balance = 20, name = ''Bob'', type = None\<rparr>,
                            \<lparr>balance = 0, name = ''Bob'', type = None\<rparr>,
                            \<lparr>balance = 0, name = ''Alice'', type = None\<rparr>],
           ledgerFile = Some ''transactions.csv''\<rparr>)"
    by (simp add: example_simps)
  from getBalanceAtDate_exhausted [OF ents lf csv cutoff recs early]
    parseLedger_example recs cutoff run
  show ?thesis
    by (intro conjI)
qed

lemma replayRows_in_stream_order:
  assumes ents: "entities L = Some es"
    and pre: "map (parsedRow lib hs) pre = map Some recs"
    and early: "\<forall>rec \<in> set recs. fst rec \<le> cutoff"
    and stop: "parsedRow lib hs r = Some (d, sn, rn, x)"
    and late: "cutoff < d"
  shows "replayRows lib cutoff fmt hs (pre @ r # post) L = replayRows lib cutoff fmt hs (pre @ [r]) L
       \<and> (\<exists>res. replayRows lib cutoff fmt hs (pre @ r # post) L
                   = (res, L\<lparr>entities := Some (snd (replaySpec cutoff (strftime lib cutoff fmt)
                                                       (recs @ [(d, sn, rn, x)]) es))\<rparr>)
               \<and> agrees res (fst (replaySpec cutoff (strftime lib cutoff fmt)
                                     (recs @ [(d, sn, rn, x)]) es)))"
  using ents pre early
proof (induction pre arbitrary: recs es L)
  case Nil
  then have "recs = []"
    by simp
  moreover from late have "\<not> d \<le> cutoff"
    by (simp add: not_le)
  ultimately show ?case
    using Nil.prems(1)
    by (simp add: replayRows_step [OF Nil.prems(1) stop] Ledger_update_same agrees_simps del: replayRows.simps(2))
next
  case (Cons row pre)
  note ents = Cons.prems(1)
  from Cons.prems(2) obtain rec recs' where recs: "recs = rec # recs'"
    and row: "parsedRow lib hs row = Some rec"
    and pre': "map (parsedRow lib hs) pre = map Some recs'"
    by (cases recs) auto
  obtain d' sn' rn' x' where rec: "rec = (d', sn', rn', x')"
    by (cases rec) auto
  from Cons.prems(3) recs rec have le: "d' \<le> cutoff" and early': "\<forall>rec \<in> set recs'. fst rec \<le> cutoff"
    by auto
  note step = replayRows_step [OF ents row [unfolded rec], of cutoff fmt]
  let ?key = "strftime lib cutoff fmt"
  show ?case
  proof (cases "firstByName es sn'")
    case None
    with le show ?thesis
      by (simp add: step recs rec Ledger_update_same [OF ents] agrees_simps del: replayRows.simps(2))
  next
    case (Some s)
    show ?thesis
    proof (cases "firstByName es rn'")
      case None
      from pay_absent_receiver [of es s x'] obtain e where "pay es s None x' = (Inl e, es)" ..
      with Some None le show ?thesis
        by (simp add: step recs rec Ledger_update_same [OF ents] agrees_simps del: replayRows.simps(2))
    next
      case rcv: (Some r')
      obtain r1 es1 where p: "pay es s (Some r') x' = (r1, es1)"
        by (cases "pay es s (Some r') x'") auto
      show ?thesis
      proof (cases r1)
        case (Inl e)
        with Some rcv le p show ?thesis
          by (simp add: step recs rec agrees_simps del: replayRows.simps(2))
      next
        case (Inr paid)
        let ?L1 = "L\<lparr>entities := Some es1\<rparr>"
        let ?spec = "replaySpec cutoff ?key (recs' @ [(d, sn, rn, x)]) es1"
        have "entities ?L1 = Some es1"
          by simp
        from Cons.IH [OF this pre' early'] obtain res
          where eq: "replayRows lib cutoff fmt hs (pre @ r # post) ?L1
                       = replayRows lib cutoff fmt hs (pre @ [r]) ?L1"
            and run: "replayRows lib cutoff fmt hs (pre @ r # post) ?L1
                       = (res, ?L1\<lparr>entities := Some (snd ?spec)\<rparr>)"
            and ag: "agrees res (fst ?spec)"
          by blast
        have stepL: "replayRows lib cutoff fmt hs ((row # pre) @ r # post) L
                       = replayRows lib cutoff fmt hs (pre @ r # post) ?L1"
          using Some rcv le p Inr by (simp add: step del: replayRows.simps(2))
        have stepR: "replayRows lib cutoff fmt hs ((row # pre) @ [r]) L
                       = replayRows lib cutoff fmt hs (pre @ [r]) ?L1"
          using Some rcv le p Inr by (simp add: step del: replayRows.simps(2))
        have spec: "replaySpec cutoff ?key (recs @ [(d, sn, rn, x)]) es = ?spec"
          using Some rcv le p Inr by (simp add: recs rec)
        have A: "replayRows lib cutoff fmt hs ((row # pre) @ r # post) L
                   = replayRows lib cutoff fmt hs ((row # pre) @ [r]) L"
          by (simp only: stepL stepR eq)
        have "?L1\<lparr>entities := Some (snd ?spec)\<rparr> = L\<lparr>entities := Some (snd ?spec)\<rparr>"
          by simp
        with run have B: "replayRows lib cutoff fmt hs ((row # pre) @ r # post) L
                   = (res, L\<lparr>entities := Some (snd ?spec)\<rparr>)"
          by (simp only: stepL)
        show ?thesis
          unfolding spec using A B ag by blast
      qed
    qed
  qed
qed

lemma index_Inr_mem: "index hs c = Inr i \<Longrightarrow> c \<in> set hs"
  by (induction hs arbitrary: i) (auto split: if_splits sum.splits)

lemma parsedRow_headers:
  assumes "parsedRow lib hs row = Some rec"
  shows "''sender'' \<in> set hs \<and> ''receiver'' \<in> set hs \<and> ''date'' \<in> set hs \<and> ''amount'' \<in> set hs"
  using assms
  by (auto simp: parsedRow_def field_def split: sum.splits option.splits dest: index_Inr_mem)

lemma readRow_csv_reader:
  "readRow (lib\<lparr>csv_reader := c\<rparr>) L hs row = readRow lib L hs row"
  by (simp add: readRow_def split: sum.splits option.splits)

lemma replayRows_csv_reader:
  "replayRows (lib\<lparr>csv_reader := c\<rparr>) d fmt hs rows L = replayRows lib d fmt hs rows L"
  by (induction rows arbitrary: L)
    (simp_all add: readRow_csv_reader split: sum.splits option.splits prod.splits)

lemma parsedRow_csv_reader:
  "parsedRow (lib\<lparr>csv_reader := c\<rparr>) hs row = parsedRow lib hs row"
  by (simp add: parsedRow_def split: sum.splits option.splits)

lemma getBalanceAtDate_replayRows:
  assumes "ledgerFile L = Some f" and "csv_reader lib f = Some (headers # rows)"
    and "strptime lib date fmt = Some cutoff"
    and "''sender'' \<in> set headers" and "''receiver'' \<in> set headers"
    and "''date'' \<in> set headers" and "''amount'' \<in> set headers"
  shows "getBalanceAtDate lib L (Some date) fmt = replayRows lib cutoff fmt headers rows L"
  using assms by (simp add: getBalanceAtDate_def)

lemma replayRows_append:
  "replayRows lib d fmt hs pre L = (Inr None, L1) \<Longrightarrow>
   replayRows lib d fmt hs (pre @ rest) L = replayRows lib d fmt hs rest L1"
  by (induction pre arbitrary: L)
    (auto split: sum.splits option.splits if_splits prod.splits)

lemma firstByName_names:
  "map name es' = map name es \<Longrightarrow> firstByName es' nm = firstByName es nm"
proof (induction es arbitrary: es')
  case Nil
  then show ?case by simp
next
  case (Cons e es)
  then obtain e' es'' where "es' = e' # es''"
    by (cases es') auto
  with Cons show ?case
    by auto
qed


text \<open>
  Claim C3: the replay consumes the records in stream order and stops at the
  first record dated after the cutoff. For a ledger file made of records dated
  on or before the cutoff, then a record dated after it, then anything at all
  (also records dated on or before the cutoff, or rows that do not parse),
  \<open>getBalanceAtDate\<close> returns what it returns on the file cut after the stopping
  record, and that result agrees with the specification's replay of the records
  up to the stopping record: the same final entities, and the snapshot of them,
  or a failure where a lookup or a transfer fails.
\<close>

theorem replay_in_stream_order:
  assumes ents: "entities L = Some es" and lf: "ledgerFile L = Some f"
    and csv: "csv_reader lib f = Some (headers # pre @ r # post)"
    and cut: "strptime lib date fmt = Some cutoff"
    and pre: "map (parsedRow lib headers) pre = map Some recs"
    and early: "\<forall>rec \<in> set recs. fst rec \<le> cutoff"
    and stop: "parsedRow lib headers r = Some (d, sn, rn, x)"
    and late: "cutoff < d"
  shows "getBalanceAtDate (lib\<lparr>csv_reader := (csv_reader lib)(f \<mapsto> headers # pre @ [r])\<rparr>)
           L (Some date) fmt
         = getBalanceAtDate lib L (Some date) fmt
       \<and> (\<exists>res. getBalanceAtDate lib L (Some date) fmt
                   = (res, L\<lparr>entities := Some (snd (replaySpec cutoff (strftime lib cutoff fmt)
                                                       (recs @ [(d, sn, rn, x)]) es))\<rparr>)
               \<and> agrees res (fst (replaySpec cutoff (strftime lib cutoff fmt)
                                     (recs @ [(d, sn, rn, x)]) es)))"
proof -
  let ?cut = "lib\<lparr>csv_reader := (csv_reader lib)(f \<mapsto> headers # pre @ [r])\<rparr>"
  note hdr = parsedRow_headers [OF stop]
  have full: "getBalanceAtDate lib L (Some date) fmt
                = replayRows lib cutoff fmt headers (pre @ r # post) L"
    using hdr by (intro getBalanceAtDate_replayRows [OF lf csv cut]) simp_all
  have "csv_reader ?cut f = Some (headers # pre @ [r])" and "strptime ?cut date fmt = Some cutoff"
    using cut by simp_all
  then have "getBalanceAtDate ?cut L (Some date) fmt
                = replayRows ?cut cutoff fmt headers (pre @ [r]) L"
    using hdr by (intro getBalanceAtDate_replayRows [OF lf]) simp_all
  then have short: "getBalanceAtDate ?cut L (Some date) fmt
                = replayRows lib cutoff fmt headers (pre @ [r]) L"
    by (simp only: replayRows_csv_reader)
  from replayRows_in_stream_order [OF ents pre early stop late, of fmt post]
  obtain res where
    eq: "replayRows lib cutoff fmt headers (pre @ r # post) L
           = replayRows lib cutoff fmt headers (pre @ [r]) L"
    and run: "replayRows lib cutoff fmt headers (pre @ r # post) L
           = (res, L\<lparr>entities := Some (snd (replaySpec cutoff (strftime lib cutoff fmt)
                                               (recs @ [(d, sn, rn, x)]) es))\<rparr>)"
    and ag: "agrees res (fst (replaySpec cutoff (strftime lib cutoff fmt)
                                (recs @ [(d, sn, rn, x)]) es))"
    by blast
  have A: "getBalanceAtDate ?cut L (Some date) fmt = getBalanceAtDate lib L (Some date) fmt"
    by (simp only: full short eq)
  have B: "getBalanceAtDate lib L (Some date) fmt
           = (res, L\<lparr>entities := Some (snd (replaySpec cutoff (strftime lib cutoff fmt)
                                               (recs @ [(d, sn, rn, x)]) es))\<rparr>)"
    by (simp only: full run)
  from A B ag show ?thesis
    by blast
qed

theorem replay_in_stream_order_witness:
  "csv_reader exampleLib ''unsorted.csv''
     = Some (hd unsortedRows # [[''2021-01-01'', ''Alice'', ''Bob'', ''30.00'']]
                @ [''2021-01-02'', ''Bob'', ''Alice'', ''10.00'']
                # [[''2021-01-01'', ''Alice'', ''Bob'', ''10.00'']])
   \<and> strptime exampleLib ''2021-01-01'' ''%Y-%m-%d'' = Some 1
   \<and> map (parsedRow exampleLib (hd unsortedRows)) [[''2021-01-01'', ''Alice'', ''Bob'', ''30.00'']]
     = map Some [(1, ''Alice'', ''Bob'', 30)]
   \<and> parsedRow exampleLib (hd unsortedRows) [''2021-01-02'', ''Bob'', ''Alice'', ''10.00'']
     = Some (2, ''Bob'', ''Alice'', 10)
   \<and> getBalanceAtDate exampleLib (exampleLedger\<lparr>ledgerFile := Some ''unsorted.csv''\<rparr>)
        (Some ''2021-01-01'') ''%Y-%m-%d''
       = (Inr (Some (''2021-01-01'', [(''Alice'', 70), (''Bob'', 80)])),
          \<lparr>entities = Some [alice\<lparr>balance := 70\<rparr>, bob\<lparr>balance := 80\<rparr>],
           ledgerFile = Some ''unsorted.csv''\<rparr>)"
proof -
  let ?L = "exampleLedger\<lparr>ledgerFile := Some ''unsorted.csv''\<rparr>"
  let ?pre = "[[''2021-01-01'', ''Alice'', ''Bob'', ''30.00'']]"
  let ?r = "[''2021-01-02'', ''Bob'', ''Alice'', ''10.00'']"
  let ?post = "[[''2021-01-01'', ''Alice'', ''Bob'', ''10.00'']]"
  have ents: "entities ?L = Some [alice, bob]"
    by (simp add: exampleLedger_def)
  have lf: "ledgerFile ?L = Some ''unsorted.csv''"
    by simp
  have csv: "csv_reader exampleLib ''unsorted.csv'' = Some (hd unsortedRows # ?pre @ ?r # ?post)"
    by (simp add: exampleLib_def unsortedRows_def)
  have cut: "strptime exampleLib ''2021-01-01'' ''%Y-%m-%d'' = Some 1"
    by (simp add: exampleLib_def)
  have pre: "map (parsedRow exampleLib (hd unsortedRows)) ?pre = map Some [(1, ''Alice'', ''Bob'', 30)]"
    by (simp add: parsedRow_def example_simps)
  have early: "\<forall>rec \<in> set [(1::nat, ''Alice'', ''Bob'', 30::real)]. fst rec \<le> 1"
    by simp
  have stop: "parsedRow exampleLib (hd unsortedRows) ?r = Some (2, ''Bob'', ''Alice'', 10)"
    by (simp add: parsedRow_def example_simps)
  have late: "(1::nat) < 2"
    by simp
  have spec: "replaySpec (1::nat) (strftime exampleLib 1 ''%Y-%m-%d'')
                ([(1, ''Alice'', ''Bob'', 30)] @ [(2, ''Bob'', ''Alice'', 10)]) [alice, bob]
              = (Snapshot (''2021-01-01'', [(''Alice'', 70), (''Bob'', 80)]),
                 [alice\<lparr>balance := 70\<rparr>, bob\<lparr>balance := 80\<rparr>])"
    by (simp add: example_simps)
  from replay_in_stream_order [OF ents lf csv cut pre early stop late]
  obtain res where
    run: "getBalanceAtDate exampleLib ?L (Some ''2021-01-01'') ''%Y-%m-%d''
            = (res, ?L\<lparr>entities := Some (snd (replaySpec (1::nat)
                 (strftime exampleLib 1 ''%Y-%m-%d'')
                 ([(1, ''Alice'', ''Bob'', 30)] @ [(2, ''Bob'', ''Alice'', 10)]) [alice, bob]))\<rparr>)"
    and ag: "agrees res (fst (replaySpec (1::nat) (strftime exampleLib 1 ''%Y-%m-%d'')
                 ([(1, ''Alice'', ''Bob'', 30)] @ [(2, ''Bob'', ''Alice'', 10)]) [alice, bob]))"
    by blast
  from ag have res: "res = Inr (Some (''2021-01-01'', [(''Alice'', 70), (''Bob'', 80)]))"
    by (simp only: spec fst_conv agrees_def replayState.case)
  have "?L\<lparr>entities := Some [alice\<lparr>balance := 70\<rparr>, bob\<lparr>balance := 80\<rparr>]\<rparr>
          = \<lparr>entities = Some [alice\<lparr>balance := 70\<rparr>, bob\<lparr>balance := 80\<rparr>],
             ledgerFile = Some ''unsorted.csv''\<rparr>"
    by (simp add: exampleLedger_def)
  with run res have "getBalanceAtDate exampleLib ?L (Some ''2021-01-01'') ''%Y-%m-%d''
       = (Inr (Some (''2021-01-01'', [(''Alice'', 70), (''Bob'', 80)])),
          \<lparr>entities = Some [alice\<lparr>balance := 70\<rparr>, bob\<lparr>balance := 80\<rparr>],
           ledgerFile = Some ''unsorted.csv''\<rparr>)"
    by (simp only: spec snd_conv)
  with csv cut pre stop show ?thesis
    by (intro conjI)
qed

text \<open>
  Claim C7, as stated, says that looking up a name that matches no entity signals
  an error. \<open>getEntityByName\<close> returns \<open>None\<close> instead, as its docstring says.
\<close>

theorem getEntityByName_unknown_counterexample:
  "getEntityByName exampleLedger ''Carol'' = Inr None"
  by (simp add: example_simps)

text \<open>
  Claim C7, amended: looking up a name that matches no entity up to case returns
  \<open>None\<close> and raises nothing. During replay, once the records before it have
  been applied, a record dated on or before the cutoff whose sender or receiver
  is not registered makes \<open>getBalanceAtDate\<close> raise: \<open>AttributeError\<close> when the
  sender is not registered or the sender's type is allowed to pay, and the
  not-allowed exception naming the sender's type otherwise. The ledger is left
  as the records before it left it: their transfers stay applied. A record
  dated after the cutoff stops the replay with the snapshot although its names
  are not registered.
\<close>

theorem unregistered_name:
  assumes ents: "entities L = Some es" and lf: "ledgerFile L = Some f"
    and csv: "csv_reader lib f = Some (headers # pre @ row # rest)"
    and cut: "strptime lib date fmt = Some cutoff"
    and before: "getBalanceAtDate (lib\<lparr>csv_reader := (csv_reader lib)(f \<mapsto> headers # pre)\<rparr>)
                   L (Some date) fmt = (Inr None, L1)"
    and row: "parsedRow lib headers row = Some (d, sn, rn, x)"
    and unreg: "getEntityByName L sn = Inr None \<or> getEntityByName L rn = Inr None"
  shows "(\<forall>nm. (\<forall>e \<in> set es. lower (name e) \<noteq> lower nm) \<longrightarrow> getEntityByName L nm = Inr None)
       \<and> (d \<le> cutoff \<longrightarrow>
            (getEntityByName L sn = Inr None \<longrightarrow>
               getBalanceAtDate lib L (Some date) fmt = (Inl AttributeError, L1))
          \<and> (\<forall>s. getEntityByName L sn = Inr (Some s) \<and> type (es ! s) \<in> set allowedToPay \<longrightarrow>
               getBalanceAtDate lib L (Some date) fmt = (Inl AttributeError, L1))
          \<and> (\<forall>s t. getEntityByName L sn = Inr (Some s) \<and> type (es ! s) = Some t
                     \<and> Some t \<notin> set allowedToPay \<longrightarrow>
               getBalanceAtDate lib L (Some date) fmt
                 = (Inl (Exception (''Transaction not allowed. Trying to sent currency from a ''
                                     @ t @ '' entity.'')), L1)))
       \<and> (cutoff < d \<longrightarrow>
            (\<exists>es1. entities L1 = Some es1
                \<and> getBalanceAtDate lib L (Some date) fmt
                    = (Inr (Some (strftime lib cutoff fmt, balances es1)), L1)))"
proof -
  let ?cut = "lib\<lparr>csv_reader := (csv_reader lib)(f \<mapsto> headers # pre)\<rparr>"
  let ?G = "getBalanceAtDate lib L (Some date) fmt"
  note hdr = parsedRow_headers [OF row]
  have "getBalanceAtDate ?cut L (Some date) fmt = replayRows ?cut cutoff fmt headers pre L"
    using hdr cut by (intro getBalanceAtDate_replayRows [OF lf]) simp_all
  with before have pre_run: "replayRows lib cutoff fmt headers pre L = (Inr None, L1)"
    by (simp only: replayRows_csv_reader)
  have "?G = replayRows lib cutoff fmt headers (pre @ row # rest) L"
    using hdr by (intro getBalanceAtDate_replayRows [OF lf csv cut]) simp_all
  with replayRows_append [OF pre_run, of "row # rest"]
  have G: "?G = replayRows lib cutoff fmt headers (row # rest) L1"
    by simp
  from replayRows_frame [OF ents pre_run] obtain es1 where
    L1: "L1 = L\<lparr>entities := Some es1\<rparr>" and len: "length es1 = length es"
    and nms: "map name es1 = map name es" and tys: "map type es1 = map type es"
    by blast
  have ents1: "entities L1 = Some es1"
    by (simp add: L1)
  have look: "firstByName es1 nm = firstByName es nm" for nm
    using nms by (rule firstByName_names)
  have getL: "getEntityByName L nm = Inr (firstByName es nm)" for nm
    by (simp add: getEntityByName_def ents)
  have ty: "type (es1 ! s) = type (es ! s)" if "firstByName es nm = Some s" for s nm
  proof -
    from firstByName_Some [OF that] have "s < length es"
      by simp
    with len have "map type es1 ! s = type (es1 ! s)" and "map type es ! s = type (es ! s)"
      by simp_all
    with tys show ?thesis
      by simp
  qed
  note step = replayRows_step [OF ents1 row, of cutoff fmt rest, unfolded look]
  have same: "L1\<lparr>entities := Some es1\<rparr> = L1"
    by (simp add: L1)
  have a: "\<forall>nm. (\<forall>e \<in> set es. lower (name e) \<noteq> lower nm) \<longrightarrow> getEntityByName L nm = Inr None"
    by (simp add: getL firstByName_None)
  have b1: "?G = (Inl AttributeError, L1)"
    if "d \<le> cutoff" "getEntityByName L sn = Inr None"
    using that by (simp add: G step getL del: replayRows.simps(2))
  have rcv: "firstByName es rn = None" if "getEntityByName L sn = Inr (Some s)" for s
    using that unreg by (simp add: getL)
  have b2: "?G = (Inl AttributeError, L1)"
    if "d \<le> cutoff" "getEntityByName L sn = Inr (Some s)" "type (es ! s) \<in> set allowedToPay" for s
  proof -
    from that(2) have s: "firstByName es sn = Some s"
      by (simp add: getL)
    with that(3) have "pay es1 s None x = (Inl AttributeError, es1)"
      by (simp add: pay_def ty [OF s])
    with that(1) s rcv [OF that(2)] show ?thesis
      by (simp add: G step same del: replayRows.simps(2))
  qed
  have b3: "?G = (Inl (Exception (''Transaction not allowed. Trying to sent currency from a ''
                                     @ t @ '' entity.'')), L1)"
    if "d \<le> cutoff" "getEntityByName L sn = Inr (Some s)" "type (es ! s) = Some t"
      "Some t \<notin> set allowedToPay" for s t
  proof -
    from that(2) have s: "firstByName es sn = Some s"
      by (simp add: getL)
    with that(3,4) have "pay es1 s None x
        = (Inl (Exception (''Transaction not allowed. Trying to sent currency from a ''
                             @ t @ '' entity.'')), es1)"
      by (simp add: pay_def ty [OF s])
    with that(1) s rcv [OF that(2)] show ?thesis
      by (simp add: G step same del: replayRows.simps(2))
  qed
  have c: "\<exists>es1. entities L1 = Some es1
              \<and> ?G = (Inr (Some (strftime lib cutoff fmt, balances es1)), L1)"
    if "cutoff < d"
  proof -
    from that have "\<not> d \<le> cutoff"
      by (simp add: not_le)
    then have "?G = (Inr (Some (strftime lib cutoff fmt, balances es1)), L1)"
      by (simp add: G step del: replayRows.simps(2))
    with ents1 show ?thesis
      by blast
  qed
  from a b1 b2 b3 c show ?thesis
    by blast
qed

theorem unregistered_name_witness:
  "getEntityByName (exampleLedger\<lparr>ledgerFile := Some ''unregistered.csv''\<rparr>) ''Carol'' = Inr None
   \<and> getBalanceAtDate exampleLib (exampleLedger\<lparr>ledgerFile := Some ''unregistered.csv''\<rparr>)
        (Some ''2021-01-02'') ''%Y-%m-%d''
       = (Inl AttributeError,
          \<lparr>entities = Some [alice\<lparr>balance := 70\<rparr>, bob\<lparr>balance := 80\<rparr>],
           ledgerFile = Some ''unregistered.csv''\<rparr>)
   \<and> getBalanceAtDate exampleLib (exampleLedger\<lparr>ledgerFile := Some ''unregistered.csv''\<rparr>)
        (Some ''2021-01-01'') ''%Y-%m-%d''
       = (Inr (Some (''2021-01-01'', [(''Alice'', 70), (''Bob'', 80)])),
          \<lparr>entities = Some [alice\<lparr>balance := 70\<rparr>, bob\<lparr>balance := 80\<rparr>],
           ledgerFile = Some ''unregistered.csv''\<rparr>)"
proof -
  let ?L = "exampleLedger\<lparr>ledgerFile := Some ''unregistered.csv''\<rparr>"
  let ?L1 = "\<lparr>entities = Some [alice\<lparr>balance := 70\<rparr>, bob\<lparr>balance := 80\<rparr>],
              ledgerFile = Some ''unregistered.csv''\<rparr>"
  let ?pre = "[[''2021-01-01'', ''Alice'', ''Bob'', ''30.00'']]"
  let ?row = "[''2021-01-02'', ''Carol'', ''Bob'', ''10.00'']"
  let ?cut = "exampleLib\<lparr>csv_reader :=
                (csv_reader exampleLib)(''unregistered.csv'' \<mapsto> hd unregisteredRows # ?pre)\<rparr>"
  have ents: "entities ?L = Some [alice, bob]"
    by (simp add: exampleLedger_def)
  have lf: "ledgerFile ?L = Some ''unregistered.csv''"
    by simp
  have csv: "csv_reader exampleLib ''unregistered.csv''
               = Some (hd unregisteredRows # ?pre @ ?row # [])"
    by (simp add: exampleLib_def unregisteredRows_def)
  have cut2: "strptime exampleLib ''2021-01-02'' ''%Y-%m-%d'' = Some 2"
    and cut1: "strptime exampleLib ''2021-01-01'' ''%Y-%m-%d'' = Some 1"
    by (simp_all add: exampleLib_def)
  have before2: "getBalanceAtDate ?cut ?L (Some ''2021-01-02'') ''%Y-%m-%d'' = (Inr None, ?L1)"
    by (simp add: example_simps)
  have before1: "getBalanceAtDate ?cut ?L (Some ''2021-01-01'') ''%Y-%m-%d'' = (Inr None, ?L1)"
    by (simp add: example_simps)
  have row: "parsedRow exampleLib (hd unregisteredRows) ?row = Some (2, ''Carol'', ''Bob'', 10)"
    by (simp add: parsedRow_def example_simps)
  have carol: "getEntityByName ?L ''Carol'' = Inr None"
    by (simp add: example_simps)
  then have unreg: "getEntityByName ?L ''Carol'' = Inr None \<or> getEntityByName ?L ''Bob'' = Inr None"
    by (rule disjI1)
  have key: "strftime exampleLib 1 ''%Y-%m-%d'' = ''2021-01-01''"
    by (simp add: exampleLib_def)
  have bal: "balances [alice\<lparr>balance := 70\<rparr>, bob\<lparr>balance := 80\<rparr>] = [(''Alice'', 70), (''Bob'', 80)]"
    by (simp add: balances_def alice_def bob_def)
  from unregistered_name [OF ents lf csv cut2 before2 row unreg] carol
  have fails: "getBalanceAtDate exampleLib ?L (Some ''2021-01-02'') ''%Y-%m-%d''
                 = (Inl AttributeError, ?L1)"
    by simp
  from unregistered_name [OF ents lf csv cut1 before1 row unreg]
  have "getBalanceAtDate exampleLib ?L (Some ''2021-01-01'') ''%Y-%m-%d''
          = (Inr (Some (strftime exampleLib 1 ''%Y-%m-%d'',
                        balances [alice\<lparr>balance := 70\<rparr>, bob\<lparr>balance := 80\<rparr>])), ?L1)"
    by simp
  then have stops: "getBalanceAtDate exampleLib ?L (Some ''2021-01-01'') ''%Y-%m-%d''
          = (Inr (Some (''2021-01-01'', [(''Alice'', 70), (''Bob'', 80)])), ?L1)"
    by (simp only: key bal)
  from carol fails stops show ?thesis
    by (intro conjI)
qed

text \<open>
  Claim C9 says that two calls of \<open>getBalanceAtDate\<close> with the same date, one
  after the other, return the same snapshot. Each call replays the file on the
  balances that the call before left: on the ledger parsed from the example
  file, the first call returns Alice -30 and Bob 30, the second Alice -60 and
  Bob 60.
\<close>

theorem snapshot_twice_differs:
  "getBalanceAtDate exampleLib streamLedger (Some ''2021-01-01'') ''%Y-%m-%d''
     = (Inr (Some (''2021-01-01'', [(''Alice'', -30), (''Bob'', 30), (''Bob'', 0), (''Alice'', 0)])),
        \<lparr>entities = Some [\<lparr>balance = -30, name = ''Alice'', type = None\<rparr>,
                          \<lparr>balance = 30, name = ''Bob'', type = None\<rparr>,
                          \<lparr>balance = 0, name = ''Bob'', type = None\<rparr>,
                          \<lparr>balance = 0, name = ''Alice'', type = None\<rparr>],
         ledgerFile = Some ''transactions.csv''\<rparr>)
   \<and> getBalanceAtDate exampleLib
        (snd (getBalanceAtDate exampleLib streamLedger (Some ''2021-01-01'') ''%Y-%m-%d''))
        (Some ''2021-01-01'') ''%Y-%m-%d''
     = (Inr (Some (''2021-01-01'', [(''Alice'', -60), (''Bob'', 60), (''Bob'', 0), (''Alice'', 0)])),
        \<lparr>entities = Some [\<lparr>balance = -60, name = ''Alice'', type = None\<rparr>,
                          \<lparr>balance = 60, name = ''Bob'', type = None\<rparr>,
                          \<lparr>balance = 0, name = ''Bob'', type = None\<rparr>,
                          \<lparr>balance = 0, name = ''Alice'', type = None\<rparr>],
         ledgerFile = Some ''transactions.csv''\<rparr>)"
  by (simp add: example_simps)

theorem snapshot_twice_differs_witness:
  "fst (getBalanceAtDate exampleLib streamLedger (Some ''2021-01-01'') ''%Y-%m-%d'')
     \<noteq> fst (getBalanceAtDate exampleLib
              (snd (getBalanceAtDate exampleLib streamLedger (Some ''2021-01-01'') ''%Y-%m-%d''))
              (Some ''2021-01-01'') ''%Y-%m-%d'')"
proof -
  let ?first = "getBalanceAtDate exampleLib streamLedger (Some ''2021-01-01'') ''%Y-%m-%d''"
  let ?second = "getBalanceAtDate exampleLib (snd ?first) (Some ''2021-01-01'') ''%Y-%m-%d''"
  have one: "fst ?first
      = Inr (Some (''2021-01-01'', [(''Alice'', -30), (''Bob'', 30), (''Bob'', 0), (''Alice'', 0)]))"
    by (subst snapshot_twice_differs [THEN conjunct1]) (simp only: fst_conv)
  have two: "fst ?second
      = Inr (Some (''2021-01-01'', [(''Alice'', -60), (''Bob'', 60), (''Bob'', 0), (''Alice'', 0)]))"
    by (subst snapshot_twice_differs [THEN conjunct2]) (simp only: fst_conv)
  show ?thesis
    by (simp only: one two) simp
qed

text \<open>
  Claim C10: \<open>getEntityByName\<close> returns the first entity of the list whose name
  matches up to case, so that looking up the name of any entity of the list
  resolves to that entity or to one before it. Hence a call of
  \<open>getBalanceAtDate\<close>, whatever it returns,
  keeps the length and the names of the entity list and the balance of every
  later duplicate; and a snapshot has one pair per entity, in list order, with
  a later duplicate listed under its own name with its initial balance.
\<close>

theorem first_match_only:
  assumes "entities L = Some es" and "getBalanceAtDate lib L date fmt = (res, L')"
  shows "(\<forall>nm i. getEntityByName L nm = Inr (Some i) \<longrightarrow>
            i < length es \<and> lower (name (es ! i)) = lower nm
            \<and> (\<forall>k<i. lower (name (es ! k)) \<noteq> lower nm))
       \<and> (\<forall>j<length es. \<exists>i\<le>j. getEntityByName L (name (es ! j)) = Inr (Some i))
       \<and> (\<exists>es'. entities L' = Some es' \<and> length es' = length es \<and> map name es' = map name es
              \<and> (\<forall>j<length es. laterDuplicate es j \<longrightarrow> balance (es' ! j) = balance (es ! j))
              \<and> (\<forall>key snap. res = Inr (Some (key, snap)) \<longrightarrow>
                    snap = balances es' \<and> length snap = length es
                    \<and> (\<forall>j<length es. laterDuplicate es j \<longrightarrow>
                          snap ! j = (name (es ! j), balance (es ! j)))))"
proof (intro conjI)
  show "\<forall>nm i. getEntityByName L nm = Inr (Some i) \<longrightarrow>
            i < length es \<and> lower (name (es ! i)) = lower nm
            \<and> (\<forall>k<i. lower (name (es ! k)) \<noteq> lower nm)"
    using assms(1) firstByName_Some [of es] by (simp add: getEntityByName_def)
next
  show "\<forall>j<length es. \<exists>i\<le>j. getEntityByName L (name (es ! j)) = Inr (Some i)"
    using assms(1) firstByName_member [of _ es] by (simp add: getEntityByName_def)
next
  have "\<exists>es'. L' = L\<lparr>entities := Some es'\<rparr> \<and> length es' = length es
            \<and> map name es' = map name es
            \<and> (\<forall>j<length es. laterDuplicate es j \<longrightarrow> es' ! j = es ! j)
            \<and> (\<forall>snap. res = Inr (Some snap) \<longrightarrow> (\<exists>key. snap = (key, balances es')))"
  proof (cases "\<exists>d hs rows. replayRows lib d fmt hs rows L = (res, L')")
    case True
    then obtain d hs rows where "replayRows lib d fmt hs rows L = (res, L')"
      by blast
    from replayRows_frame [OF assms(1) this] show ?thesis
      by blast
  next
    case False
    with assms(2) have "L' = L" and "\<forall>snap. res \<noteq> Inr (Some snap)"
      by (auto simp: getBalanceAtDate_def split: option.splits list.splits if_splits)
    with assms(1) show ?thesis
      by (intro exI [of _ es]) (simp add: Ledger_update_same)
  qed
  then obtain es' where L': "L' = L\<lparr>entities := Some es'\<rparr>" and len: "length es' = length es"
    and nms: "map name es' = map name es"
    and keep: "\<forall>j<length es. laterDuplicate es j \<longrightarrow> es' ! j = es ! j"
    and snap: "\<forall>snap. res = Inr (Some snap) \<longrightarrow> (\<exists>key. snap = (key, balances es'))"
    by blast
  have "snap = balances es' \<and> length snap = length es
        \<and> (\<forall>j<length es. laterDuplicate es j \<longrightarrow> snap ! j = (name (es ! j), balance (es ! j)))"
    if "res = Inr (Some (key, snap))" for key snap
  proof -
    from snap that have s: "snap = balances es'"
      by auto
    moreover have "length (balances es') = length es"
      by (simp add: balances_def len)
    moreover have "balances es' ! j = (name (es ! j), balance (es ! j))"
      if "j < length es" "laterDuplicate es j" for j
      using that keep len by (simp add: balances_def)
    ultimately show ?thesis
      by simp
  qed
  then show "\<exists>es'. entities L' = Some es' \<and> length es' = length es \<and> map name es' = map name es
              \<and> (\<forall>j<length es. laterDuplicate es j \<longrightarrow> balance (es' ! j) = balance (es ! j))
              \<and> (\<forall>key snap. res = Inr (Some (key, snap)) \<longrightarrow>
                    snap = balances es' \<and> length snap = length es
                    \<and> (\<forall>j<length es. laterDuplicate es j \<longrightarrow>
                          snap ! j = (name (es ! j), balance (es ! j))))"
    using L' len nms keep by (intro exI [of _ es']) simp
qed

theorem first_match_only_witness:
  "entities streamLedger = Some streamEntities
   \<and> laterDuplicate streamEntities 2
   \<and> laterDuplicate streamEntities 3
   \<and> getEntityByName streamLedger ''bob'' = Inr (Some 1)
   \<and> fst (getBalanceAtDate exampleLib streamLedger (Some ''2021-01-01'') ''%Y-%m-%d'')
       = Inr (Some (''2021-01-01'', [(''Alice'', -30), (''Bob'', 30), (''Bob'', 0), (''Alice'', 0)]))"
proof -
  let ?run = "getBalanceAtDate exampleLib streamLedger (Some ''2021-01-01'') ''%Y-%m-%d''"
  have ents: "entities streamLedger = Some streamEntities"
    by (simp add: streamLedger_def)
  have run: "?run = (fst ?run, snd ?run)"
    by simp
  have dup2: "laterDuplicate streamEntities 2"
    unfolding laterDuplicate_def streamEntities_def by (intro bexI [of _ 1]) simp_all
  have dup3: "laterDuplicate streamEntities 3"
    unfolding laterDuplicate_def streamEntities_def by (intro bexI [of _ 0]) simp_all
  have look: "getEntityByName streamLedger ''bob'' = Inr (Some 1)"
    by (simp add: example_simps)
  have res: "fst ?run
       = Inr (Some (''2021-01-01'', [(''Alice'', -30), (''Bob'', 30), (''Bob'', 0), (''Alice'', 0)]))"
    by (simp add: example_simps)
  from first_match_only [OF ents run] ents dup2 dup3 look res show ?thesis
    by (intro conjI)
qed

section \<open>Building the entity list\<close>









end
